theory Spec2Isabelle
  imports Complex_Main "HOL-Library.Sublist"
begin

section \<open>Python strings\<close>

text \<open>
  A Python \<open>str\<close> is modelled as a \<open>string\<close>: a list of characters whose code points are
  below 256 (ASCII and Latin-1), so \<open>length\<close> is Python's \<open>len\<close>. On these code points
  \<open>str.lower()\<close> maps \<open>A..Z\<close> and the upper-case letters \<open>0xC0..0xDE\<close> (without the
  multiplication sign \<open>0xD7\<close>) to the code point 32 above, and keeps every other character.
\<close>

definition lower_char :: "char \<Rightarrow> char" where
  "lower_char c =
     (let n = (of_char c :: nat)
      in if (65 \<le> n \<and> n \<le> 90) \<or> (192 \<le> n \<and> n \<le> 222 \<and> n \<noteq> 215)
         then char_of (n + 32) else c)"

definition lower :: "string \<Rightarrow> string" where
  "lower s = map lower_char s"

text \<open>Python's \<open>sub in s\<close> on strings: \<open>sub\<close> occurs in \<open>s\<close> as a contiguous run.\<close>

fun contains :: "string \<Rightarrow> string \<Rightarrow> bool" where
  "contains sub [] = (sub = [])"
| "contains sub (c # cs) = (if prefix sub (c # cs) then True else contains sub cs)"

text \<open>\<open>any(p in s for p in ps)\<close>, and the loops that return at the first hit.\<close>

definition contains_any :: "string list \<Rightarrow> string \<Rightarrow> bool" where
  "contains_any ps s = list_ex (\<lambda>p. contains p s) ps"

section \<open>indexer.py: query preprocessing\<close>

definition query_action_verbs :: "string list" where
  "query_action_verbs =
     [''create'', ''set up'', ''configure'', ''integrate'', ''connect'', ''build'', ''use'']"

definition preprocess_query :: "string \<Rightarrow> string" where
  "preprocess_query query =
     (let processed = lower query
      in if \<not> contains ''how to'' processed \<and> \<not> contains ''how do i'' processed
         then (if contains_any query_action_verbs processed
               then ''how to '' @ processed else processed)
         else processed)"

section \<open>indexer.py: the document index and its search\<close>

text \<open>
  Exceptions are values. \<open>AttributeError\<close> is what Python raises for an attribute of
  \<open>None\<close>; \<open>ValueError\<close> is the error that \<open>search\<close> raises itself ("Documents not loaded.
  Call load_documents() first."); \<open>IndexError\<close> is an index out of range; \<open>LibraryError\<close>
  stands for any exception that comes out of the vectoriser or the similarity computation.
\<close>

datatype error = AttributeError | ValueError | IndexError | KeyError | LibraryError

text \<open>A document is the dictionary that the document files hold; \<open>cdp_name\<close> is its key
  \<open>cdp\<close>.\<close>

record document =
  title :: string
  content :: string
  url :: string
  cdp_name :: string

record search_result =
  document :: document
  score :: real

type_synonym matrix = "real list list"

text \<open>
  The state of a \<open>DocumentIndexer\<close>: the loaded documents and the TF-IDF matrix, one row per
  document, which is \<open>None\<close> until \<open>load_documents\<close> has fitted it.
\<close>

record indexer =
  documents :: "document list"
  tfidf_matrix :: "matrix option"

text \<open>\<open>DocumentIndexer.__init__\<close>.\<close>

definition indexer_init :: indexer where
  "indexer_init = \<lparr>documents = [], tfidf_matrix = None\<rparr>"

text \<open>
  The numeric library is outside the repository and is a parameter of the model:
  \<open>cosine_scores q M\<close> is \<open>cosine_similarity(vectorizer.transform([q]), M).flatten()\<close>, the
  scores of the query against the rows of the matrix or an exception, and \<open>argsort\<close> is
  \<open>np.argsort\<close>, which lists the positions of an array in ascending order of their values.
  Scores are real numbers, so a score that is not a number is outside the model.
\<close>

record sklearn =
  cosine_scores :: "string \<Rightarrow> matrix \<Rightarrow> error + real list"
  argsort :: "real list \<Rightarrow> nat list"

definition is_argsort :: "real list \<Rightarrow> nat list \<Rightarrow> bool" where
  "is_argsort s p =
     (distinct p \<and> set p = {0..<length s} \<and> sorted (map (\<lambda>i. s ! i) p))"

text \<open>
  An \<open>argsort\<close> that keeps positions of equal value in ascending order (numpy's stable
  kinds). The default kind of \<open>np.argsort\<close> promises no order among equal values.
\<close>

definition stable_argsort :: "real list \<Rightarrow> nat list" where
  "stable_argsort s = sort_key (\<lambda>i. s ! i) [0..<length s]"

text \<open>The slice \<open>xs[i:]\<close>: a negative \<open>i\<close> counts from the end, and \<open>xs[-0:]\<close> is \<open>xs[0:]\<close>.\<close>

definition py_slice_from :: "int \<Rightarrow> 'a list \<Rightarrow> 'a list" where
  "py_slice_from i xs =
     (let n = int (length xs);
          start = (if i < 0 then max 0 (n + i) else min i n)
      in drop (nat start) xs)"

text \<open>\<open>top_indices = np.argsort(similarities)[-top_k:][::-1]\<close> after the clamp of \<open>top_k\<close>.\<close>

definition top_indices :: "sklearn \<Rightarrow> real list \<Rightarrow> int \<Rightarrow> nat list" where
  "top_indices L similarities top_k =
     (let top_k = min top_k (int (length similarities))
      in rev (py_slice_from (- top_k) (argsort L similarities)))"

text \<open>The loop over \<open>top_indices\<close> that keeps the results with a score above 0.1.\<close>

fun collect :: "document list \<Rightarrow> real list \<Rightarrow> nat list \<Rightarrow> error + search_result list" where
  "collect docs similarities [] = Inr []"
| "collect docs similarities (idx # rest) =
     (if idx < length similarities then
        (if similarities ! idx > 1 / 10 then
           (if idx < length docs then
              (case collect docs similarities rest of
                 Inl e \<Rightarrow> Inl e
               | Inr results \<Rightarrow>
                   Inr (\<lparr>document = docs ! idx, score = similarities ! idx\<rparr> # results))
            else Inl IndexError)
         else collect docs similarities rest)
      else Inl IndexError)"

text \<open>\<open>DocumentIndexer.search\<close>.\<close>

definition search :: "sklearn \<Rightarrow> indexer \<Rightarrow> string \<Rightarrow> int \<Rightarrow> error + search_result list" where
  "search L ix query top_k =
     (case tfidf_matrix ix of
        None \<Rightarrow> Inl AttributeError
      | Some M \<Rightarrow>
          if length M = 0 then Inl ValueError
          else (case cosine_scores L (preprocess_query query) M of
                  Inl e \<Rightarrow> Inl e
                | Inr similarities \<Rightarrow>
                    collect (documents ix) similarities (top_indices L similarities top_k)))"

text \<open>Two documents and an index over them, used to evaluate \<open>search\<close>.\<close>

definition doc_a :: document where
  "doc_a = \<lparr>title = ''Sources'', content = ''Create a source in Segment.'',
            url = ''https://segment.com/docs/sources'', cdp_name = ''segment''\<rparr>"

definition doc_b :: document where
  "doc_b = \<lparr>title = ''Audiences'', content = ''Create an audience in Lytics.'',
            url = ''https://docs.lytics.com/audiences'', cdp_name = ''lytics''\<rparr>"

definition two_docs :: indexer where
  "two_docs = \<lparr>documents = [doc_a, doc_b], tfidf_matrix = Some [[1, 0], [0, 1]]\<rparr>"

text \<open>A library under which the two documents score 0.9 and 0.5.\<close>

definition lib_ranked :: sklearn where
  "lib_ranked = \<lparr>cosine_scores = (\<lambda>q M. Inr [9 / 10, 1 / 2]), argsort = stable_argsort\<rparr>"

text \<open>A library whose similarity computation raises.\<close>

definition lib_failing :: sklearn where
  "lib_failing = \<lparr>cosine_scores = (\<lambda>q M. Inl LibraryError), argsort = stable_argsort\<rparr>"

text \<open>
  An \<open>argsort\<close> that lists positions of equal value in descending order. It meets
  \<open>is_argsort\<close> as the stable one does.
\<close>

definition argsort_ties_desc :: "real list \<Rightarrow> nat list" where
  "argsort_ties_desc s = sort_key (\<lambda>i. s ! i) (rev [0..<length s])"

text \<open>
  An index of three documents. With \<open>min_df = 2\<close> and \<open>max_df = 0.85\<close> the vectoriser keeps
  the terms that occur in exactly two of them, here the one term \<open>sources\<close>, so the matrix
  has one column, and the query \<open>sources\<close> scores 1, 1 and 0 against its rows.
\<close>

definition doc_segment_sources :: document where
  "doc_segment_sources =
     \<lparr>title = ''Sources'', content = ''Segment sources'',
      url = ''https://segment.com/docs/sources'', cdp_name = ''segment''\<rparr>"

definition doc_lytics_sources :: document where
  "doc_lytics_sources =
     \<lparr>title = ''Sources'', content = ''Lytics sources'',
      url = ''https://docs.lytics.com/sources'', cdp_name = ''lytics''\<rparr>"

definition doc_zeotap_audiences :: document where
  "doc_zeotap_audiences =
     \<lparr>title = ''Audiences'', content = ''Zeotap audiences'',
      url = ''https://docs.zeotap.com/audiences'', cdp_name = ''zeotap''\<rparr>"

definition three_docs :: indexer where
  "three_docs =
     \<lparr>documents = [doc_segment_sources, doc_lytics_sources, doc_zeotap_audiences],
      tfidf_matrix = Some [[1], [1], [0]]\<rparr>"

text \<open>Two libraries with these scores that differ in the order of equal values only.\<close>

definition lib_ties_asc :: sklearn where
  "lib_ties_asc = \<lparr>cosine_scores = (\<lambda>q M. Inr [1, 1, 0]), argsort = stable_argsort\<rparr>"

definition lib_ties_desc :: sklearn where
  "lib_ties_desc = \<lparr>cosine_scores = (\<lambda>q M. Inr [1, 1, 0]), argsort = argsort_ties_desc\<rparr>"

section \<open>The regular expressions of chatbot.py\<close>

text \<open>
  The patterns of the source are sequences of literals, repeated character classes and word
  boundaries. \<open>re.search\<close> tries the start positions from left to right and matches by
  backtracking: a greedy repetition tries its longest run first, a lazy one its shortest.
  The character classes are those of Python 3 on the code points below 256: \<open>.\<close> is any
  character but the newline, \<open>\s\<close> the white space, \<open>\w\<close> the letters, digits and the
  underscore.
\<close>

datatype char_class = Any_char | Space_char | Lower_az

definition is_space :: "char \<Rightarrow> bool" where
  "is_space c =
     (let n = (of_char c :: nat)
      in (9 \<le> n \<and> n \<le> 13) \<or> (28 \<le> n \<and> n \<le> 32) \<or> n = 133 \<or> n = 160)"

definition is_word :: "char \<Rightarrow> bool" where
  "is_word c =
     (let n = (of_char c :: nat)
      in (48 \<le> n \<and> n \<le> 57) \<or> (65 \<le> n \<and> n \<le> 90) \<or> n = 95 \<or> (97 \<le> n \<and> n \<le> 122)
         \<or> n = 170 \<or> n = 178 \<or> n = 179 \<or> n = 181 \<or> n = 185 \<or> n = 186
         \<or> (188 \<le> n \<and> n \<le> 190) \<or> (192 \<le> n \<and> n \<le> 214) \<or> (216 \<le> n \<and> n \<le> 246)
         \<or> 248 \<le> n)"

fun in_class :: "char_class \<Rightarrow> char \<Rightarrow> bool" where
  "in_class Any_char c = (c \<noteq> CHR 0x0A)"
| "in_class Space_char c = is_space c"
| "in_class Lower_az c = (97 \<le> (of_char c :: nat) \<and> (of_char c :: nat) \<le> 122)"

text \<open>
  \<open>Rep cls m greedy capture\<close> is the class \<open>cls\<close> repeated \<open>m\<close> times or more, greedy
  (\<open>+\<close>, \<open>{m,}\<close>) or lazy (\<open>+?\<close>), inside a capturing group or not.
\<close>

datatype atom = Lit string | Rep char_class nat bool bool | Word_boundary

type_synonym regex = "atom list"

text \<open>The numbers of characters that a repetition may take, in the order it tries them.\<close>

definition rep_counts :: "char_class \<Rightarrow> nat \<Rightarrow> bool \<Rightarrow> string \<Rightarrow> nat list" where
  "rep_counts cls m greedy s =
     (let longest = length (takeWhile (in_class cls) s);
          counts = [m..<Suc longest]
      in if greedy then rev counts else counts)"

text \<open>\<open>\b\<close> between the character before the position (none at the start) and the rest.\<close>

definition at_boundary :: "char option \<Rightarrow> string \<Rightarrow> bool" where
  "at_boundary prev s =
     ((case prev of None \<Rightarrow> False | Some c \<Rightarrow> is_word c)
      \<noteq> (case s of [] \<Rightarrow> False | c # _ \<Rightarrow> is_word c))"

definition last_char :: "char option \<Rightarrow> string \<Rightarrow> char option" where
  "last_char prev w = (if w = [] then prev else Some (last w))"

text \<open>
  A match of a pattern at the start of \<open>s\<close>: the text of its group, if it has one, and the
  input that is left behind the match.
\<close>

fun match_here :: "regex \<Rightarrow> char option \<Rightarrow> string \<Rightarrow> (string option \<times> string) option"
  and try_counts ::
    "regex \<Rightarrow> bool \<Rightarrow> char option \<Rightarrow> string \<Rightarrow> nat list \<Rightarrow> (string option \<times> string) option"
where
  "match_here [] prev s = Some (None, s)"
| "match_here (Lit w # r) prev s =
     (if prefix w s then match_here r (last_char prev w) (drop (length w) s) else None)"
| "match_here (Word_boundary # r) prev s =
     (if at_boundary prev s then match_here r prev s else None)"
| "match_here (Rep cls m greedy capture # r) prev s =
     try_counts r capture prev s (rep_counts cls m greedy s)"
| "try_counts r capture prev s [] = None"
| "try_counts r capture prev s (n # ns) =
     (case match_here r (last_char prev (take n s)) (drop n s) of
        Some (g, rest) \<Rightarrow> Some (if capture then Some (take n s) else g, rest)
      | None \<Rightarrow> try_counts r capture prev s ns)"

fun search_from :: "regex \<Rightarrow> char option \<Rightarrow> string \<Rightarrow> (string option \<times> string) option" where
  "search_from p prev [] = match_here p prev []"
| "search_from p prev (c # cs) =
     (case match_here p prev (c # cs) of
        Some m \<Rightarrow> Some m
      | None \<Rightarrow> search_from p (Some c) cs)"

text \<open>\<open>re.search(p, s)\<close>, and its truth value.\<close>

definition re_search :: "regex \<Rightarrow> string \<Rightarrow> (string option \<times> string) option" where
  "re_search p s = search_from p None s"

definition re_matches :: "regex \<Rightarrow> string \<Rightarrow> bool" where
  "re_matches p s = (re_search p s \<noteq> None)"

text \<open>
  \<open>re.findall(p, s)\<close> for a pattern without a group that matches no empty string: the
  matches from left to right, none overlapping an earlier one. \<open>skip\<close> counts the characters
  that are still inside the last match.
\<close>

fun findall_from :: "regex \<Rightarrow> char option \<Rightarrow> nat \<Rightarrow> string \<Rightarrow> string list" where
  "findall_from p prev skip [] = []"
| "findall_from p prev skip (c # cs) =
     (if 0 < skip then findall_from p (Some c) (skip - 1) cs
      else (case match_here p prev (c # cs) of
              None \<Rightarrow> findall_from p (Some c) 0 cs
            | Some (g, rest) \<Rightarrow>
                (let k = length (c # cs) - length rest
                 in take k (c # cs) # findall_from p (Some c) (k - 1) cs)))"

definition findall :: "regex \<Rightarrow> string \<Rightarrow> string list" where
  "findall p s = findall_from p None 0 s"

text \<open>\<open>s.replace(old, new)\<close> for a non-empty \<open>old\<close>, \<open>s.strip()\<close>, \<open>sep.join(xs)\<close>.\<close>

function replace :: "string \<Rightarrow> string \<Rightarrow> string \<Rightarrow> string" where
  "replace old new [] = []"
| "replace old new (c # cs) =
     (if old \<noteq> [] \<and> prefix old (c # cs)
      then new @ replace old new (drop (length old) (c # cs))
      else c # replace old new cs)"
  by pat_completeness auto
termination
  by (relation "measure (\<lambda>(old, new, s). length s)") auto

definition strip :: "string \<Rightarrow> string" where
  "strip s = rev (dropWhile is_space (rev (dropWhile is_space s)))"

fun join :: "string \<Rightarrow> string list \<Rightarrow> string" where
  "join sep [] = []"
| "join sep [x] = x"
| "join sep (x # y # ys) = x @ sep @ join sep (y # ys)"

text \<open>\<open>s.rfind(sub)\<close>: the last position at which \<open>sub\<close> starts in \<open>s\<close>, or \<open>-1\<close>.\<close>

fun rfind_from :: "string \<Rightarrow> string \<Rightarrow> nat \<Rightarrow> int \<Rightarrow> int" where
  "rfind_from sub [] i found = (if sub = [] then int i else found)"
| "rfind_from sub (c # cs) i found =
     rfind_from sub cs (Suc i) (if prefix sub (c # cs) then int i else found)"

definition rfind :: "string \<Rightarrow> string \<Rightarrow> int" where
  "rfind sub s = rfind_from sub s 0 (- 1)"

section \<open>chatbot.py: the question classifier\<close>

definition supported_cdps :: "string list" where
  "supported_cdps = [''segment'', ''mparticle'', ''lytics'', ''zeotap'']"

definition comparison_keywords :: "string list" where
  "comparison_keywords =
     [''compare'', ''comparison'', ''versus'', ''vs'', ''difference'', ''differences'',
      ''better'', ''best'', ''prefer'', ''advantage'', ''disadvantage'']"

subsection \<open>\<open>_truncate_question\<close>\<close>

definition question_markers :: "string list" where
  "question_markers =
     [''?'', ''how'', ''what'', ''where'', ''when'', ''why'', ''who'', ''which'', ''can'',
      ''could'']"

text \<open>
  The loop over the markers; behind it \<open>question[-300:]\<close>. \<open>max(0, pos - 50)\<close> is the
  truncating subtraction of \<open>nat\<close>, and so is the start of the last 300 characters.
\<close>

fun truncate_loop :: "string list \<Rightarrow> string \<Rightarrow> string" where
  "truncate_loop [] question = drop (length question - 300) question"
| "truncate_loop (marker # markers) question =
     (if contains marker (lower question) then
        (let pos = rfind marker (lower question)
         in if pos > int (length question div 2)
            then drop (nat pos - 50) question
            else truncate_loop markers question)
      else truncate_loop markers question)"

definition truncate_question :: "string \<Rightarrow> string" where
  "truncate_question question = truncate_loop question_markers question"

subsection \<open>\<open>_is_cdp_related\<close>\<close>

definition cdp_keywords :: "string list" where
  "cdp_keywords =
     [''customer data platform'', ''cdp'', ''integration'', ''source'', ''audience'',
      ''segment'', ''profile'', ''tracking'', ''analytics'', ''data collection'',
      ''identity resolution'', ''user profile'', ''event tracking'', ''api'',
      ''webhook'', ''destination'', ''data source'', ''user data'']"

definition how_to_patterns :: "string list" where
  "how_to_patterns = [''how to'', ''how do i'', ''how can i'', ''steps to'', ''guide for'']"

definition action_verbs :: "string list" where
  "action_verbs =
     [''create'', ''set up'', ''configure'', ''integrate'', ''connect'', ''track'',
      ''implement'']"

definition is_cdp_related :: "string \<Rightarrow> bool" where
  "is_cdp_related question =
     (let question_lower = lower question
      in if contains_any supported_cdps question_lower then True
         else if contains_any cdp_keywords question_lower then True
         else list_ex (\<lambda>pattern. contains pattern question_lower
                         \<and> contains_any action_verbs question_lower) how_to_patterns)"

subsection \<open>\<open>_identify_cdp\<close>\<close>

definition segmentation_phrases :: "string list" where
  "segmentation_phrases =
     [''audience segment'', ''user segment'', ''customer segment'', ''segment your audience'',
      ''segment your users'', ''segment your customers'']"

text \<open>The patterns \<open>\bsegment\b\<close>, \<open>segment\s+cdp\<close> and \<open>segment\s+platform\<close>.\<close>

definition segment_patterns :: "regex list" where
  "segment_patterns =
     [[Word_boundary, Lit ''segment'', Word_boundary],
      [Lit ''segment'', Rep Space_char 1 True False, Lit ''cdp''],
      [Lit ''segment'', Rep Space_char 1 True False, Lit ''platform'']]"

text \<open>The second loop of \<open>_identify_cdp\<close>, over the supported platforms.\<close>

fun identify_loop :: "string list \<Rightarrow> string \<Rightarrow> string option" where
  "identify_loop [] question_lower = None"
| "identify_loop (cdp # cdps) question_lower =
     (if cdp = ''segment'' then
        (if contains_any segmentation_phrases question_lower
         then identify_loop cdps question_lower
         else if list_ex (\<lambda>pattern. re_matches pattern question_lower) segment_patterns
         then Some cdp
         else identify_loop cdps question_lower)
      else if contains cdp question_lower then Some cdp
      else identify_loop cdps question_lower)"

definition identify_cdp :: "string \<Rightarrow> string option" where
  "identify_cdp question =
     (let question_lower = lower question;
          other = (if contains_any segmentation_phrases question_lower
                   then find (\<lambda>cdp. cdp \<noteq> ''segment'' \<and> contains cdp question_lower)
                          supported_cdps
                   else None)
      in case other of
           Some cdp \<Rightarrow> Some cdp
         | None \<Rightarrow> identify_loop supported_cdps question_lower)"

subsection \<open>\<open>_is_comparison_question\<close>\<close>

definition non_comparison_phrases :: "string list" where
  "non_comparison_phrases =
     [''audience segment'', ''user segment'', ''customer segment'', ''segment your audience'',
      ''segment your users'', ''segment your customers'']"

definition explicit_comparison_keywords :: "string list" where
  "explicit_comparison_keywords = [''compare'', ''versus'', ''vs'', ''difference between'']"

text \<open>
  The patterns \<open>how does .+ compare to\<close>, \<open>difference between .+ and\<close>,
  \<open>which is better .+ or\<close>, \<open>which cdp is better\<close> and \<open>.+ vs .+\<close>.
\<close>

definition comparison_patterns :: "regex list" where
  "comparison_patterns =
     [[Lit ''how does '', Rep Any_char 1 True False, Lit '' compare to''],
      [Lit ''difference between '', Rep Any_char 1 True False, Lit '' and''],
      [Lit ''which is better '', Rep Any_char 1 True False, Lit '' or''],
      [Lit ''which cdp is better''],
      [Rep Any_char 1 True False, Lit '' vs '', Rep Any_char 1 True False]]"

text \<open>The platforms that count as mentioned in the last check of \<open>_is_comparison_question\<close>.\<close>

definition strictly_mentioned_cdps :: "string \<Rightarrow> string list" where
  "strictly_mentioned_cdps question_lower =
     filter (\<lambda>cdp. if cdp = ''segment''
                   then list_ex (\<lambda>pattern. re_matches pattern question_lower) segment_patterns
                   else contains cdp question_lower) supported_cdps"

definition is_comparison_question :: "string \<Rightarrow> bool" where
  "is_comparison_question question =
     (let question_lower = lower question
      in if list_ex (\<lambda>phrase. contains phrase question_lower
                       \<and> \<not> contains_any explicit_comparison_keywords question_lower)
              non_comparison_phrases
         then False
         else if contains_any comparison_keywords question_lower then True
         else if list_ex (\<lambda>pattern. re_matches pattern question_lower) comparison_patterns
         then True
         else 2 \<le> length (strictly_mentioned_cdps question_lower))"

subsection \<open>\<open>_extract_comparison_features\<close>\<close>

definition features :: "string list" where
  "features =
     [''audience creation'', ''audience segmentation'', ''data collection'',
      ''integration'', ''identity resolution'', ''user profiles'', ''event tracking'',
      ''api'', ''performance'', ''pricing'', ''ease of use'', ''implementation'',
      ''data sources'', ''destinations'', ''connectors'', ''sdks'', ''security'',
      ''compliance'', ''data governance'', ''reporting'', ''analytics'']"

text \<open>
  The dictionary of patterns in its order: \<open>difference between\<close> with its default feature,
  then \<open>which is better for (.+?)\?\<close>, \<open>compare .+ for (.+)\<close> and
  \<open>how do .+ compare in (.+)\<close>, whose group is the feature.
\<close>

definition feature_patterns :: "(regex \<times> string option) list" where
  "feature_patterns =
     [([Lit ''difference between''], Some ''general capabilities''),
      ([Lit ''which is better for '', Rep Any_char 1 False True, Lit ''?''], None),
      ([Lit ''compare '', Rep Any_char 1 True False, Lit '' for '', Rep Any_char 1 True True],
       None),
      ([Lit ''how do '', Rep Any_char 1 True False, Lit '' compare in '',
        Rep Any_char 1 True True], None)]"

fun feature_from_patterns :: "(regex \<times> string option) list \<Rightarrow> string \<Rightarrow> string option" where
  "feature_from_patterns [] question_lower = None"
| "feature_from_patterns ((pattern, default_feature) # rest) question_lower =
     (case re_search pattern question_lower of
        None \<Rightarrow> feature_from_patterns rest question_lower
      | Some (g, _) \<Rightarrow>
          (case default_feature of
             Some d \<Rightarrow> Some d
           | None \<Rightarrow>
               (case g of
                  Some captured \<Rightarrow> Some (strip captured)
                | None \<Rightarrow> feature_from_patterns rest question_lower)))"

definition stop_words :: "string list" where
  "stop_words =
     [''what'', ''which'', ''when'', ''where'', ''there'', ''their'', ''about'', ''would'',
      ''should'', ''could'', ''between'']"

definition extract_comparison_features :: "string \<Rightarrow> string" where
  "extract_comparison_features question =
     (let question_lower = lower question;
          found_features = filter (\<lambda>feature. contains feature question_lower) features
      in if found_features \<noteq> [] then join '', '' found_features
         else (case feature_from_patterns feature_patterns question_lower of
                 Some feature \<Rightarrow> feature
               | None \<Rightarrow>
                   (let cleaned_question =
                          foldl (\<lambda>text word. replace word [] text) question_lower
                            (supported_cdps @ comparison_keywords);
                        words = findall [Word_boundary, Rep Lower_az 4 True False, Word_boundary]
                                  cleaned_question;
                        filtered_words = filter (\<lambda>word. word \<notin> set stop_words) words
                    in if filtered_words \<noteq> [] then ''data integration and capabilities''
                       else ''features and capabilities'')))"

section \<open>chatbot.py: answering a question\<close>

text \<open>
  The two functions that lay out the text of an answer from search results,
  \<open>_format_response\<close> and the part of \<open>_handle_comparison_question\<close> behind its search loop,
  are parameters of the model: they compute a string from documents that have all four
  fields, raise nothing and call no search, and what is proved below holds for every
  choice of them.
\<close>

record composer =
  format_response :: "search_result list \<Rightarrow> string option \<Rightarrow> string"
  compose_comparison :: "string \<Rightarrow> string list \<Rightarrow> (string \<times> search_result) list \<Rightarrow> string"

definition refusal_message :: string where
  "refusal_message =
     ''I'' @ [CHR 0x27] @ ''m a CDP Support chatbot. I can only answer questions related to ''
     @ ''Customer Data Platforms (CDPs) like Segment, mParticle, Lytics, or Zeotap. ''
     @ ''Please ask me how to perform specific tasks within these platforms.''"

definition no_results_message :: string where
  "no_results_message =
     ''I couldn'' @ [CHR 0x27] @ ''t find specific information about that. Could you please ''
     @ ''rephrase your question? Try asking how to perform a specific task in ''
     @ join '', '' supported_cdps @ ''.''"

definition trouble_message :: string where
  "trouble_message =
     ''I'' @ [CHR 0x27] @ ''m having trouble processing that question. Could you please try ''
     @ ''rephrasing it or asking about a different topic?''"

definition not_enough_message :: "string list \<Rightarrow> string \<Rightarrow> string" where
  "not_enough_message mentioned_cdps comparison_features =
     ''I don'' @ [CHR 0x27] @ ''t have enough information to compare ''
     @ join '' and '' mentioned_cdps @ '' regarding '' @ comparison_features
     @ ''. Could you please ask a more specific question?''"

subsection \<open>\<open>_handle_comparison_question\<close>\<close>

text \<open>The six patterns that look for a platform that is not named yet.\<close>

definition inference_patterns :: "string \<Rightarrow> regex list" where
  "inference_patterns cdp =
     [[Lit (''difference between '' @ cdp @ '' and'')],
      [Lit ''difference between '', Rep Any_char 1 True False, Lit ('' and '' @ cdp)],
      [Lit (cdp @ '' vs'')],
      [Lit (''vs '' @ cdp)],
      [Lit ''compare '', Rep Any_char 1 True False, Lit ('' to '' @ cdp)],
      [Lit (''compare '' @ cdp @ '' to'')]]"

fun infer_cdps :: "string list \<Rightarrow> string \<Rightarrow> string list \<Rightarrow> string list" where
  "infer_cdps [] question_lower mentioned_cdps = mentioned_cdps"
| "infer_cdps (cdp # cdps) question_lower mentioned_cdps =
     infer_cdps cdps question_lower
       (if cdp \<notin> set mentioned_cdps
           \<and> list_ex (\<lambda>pattern. re_matches pattern question_lower) (inference_patterns cdp)
        then mentioned_cdps @ [cdp] else mentioned_cdps)"

text \<open>The platforms that the handler compares: lines 233 to 265 of the source.\<close>

definition compared_cdps :: "string \<Rightarrow> string list" where
  "compared_cdps question =
     (let question_lower = lower question;
          mentioned_cdps = filter (\<lambda>cdp. contains cdp question_lower) supported_cdps;
          mentioned_cdps =
            (if length mentioned_cdps < 2 then
               (let mentioned_cdps = infer_cdps supported_cdps question_lower mentioned_cdps
                in if length mentioned_cdps < 2 then
                     (let remaining_cdps =
                            filter (\<lambda>cdp. cdp \<notin> set mentioned_cdps) supported_cdps
                      in mentioned_cdps @ take (2 - length mentioned_cdps) remaining_cdps)
                   else mentioned_cdps)
             else mentioned_cdps)
      in take 2 mentioned_cdps)"

text \<open>
  An answer comes with the queries that were passed to \<open>indexer.search\<close> on the way, in
  their order; an exception that leaves \<open>answer_question\<close> is \<open>Inl\<close>.
\<close>

type_synonym outcome = "(error + string) \<times> string list"

text \<open>The search loop of the handler: one query for each platform, the best match kept.\<close>

fun search_each ::
  "sklearn \<Rightarrow> indexer \<Rightarrow> string \<Rightarrow> string list
     \<Rightarrow> (error + (string \<times> search_result) list) \<times> string list" where
  "search_each L ix comparison_features [] = (Inr [], [])"
| "search_each L ix comparison_features (cdp # cdps) =
     (let cdp_query = comparison_features @ '' in '' @ cdp
      in case search L ix cdp_query 3 of
           Inl e \<Rightarrow> (Inl e, [cdp_query])
         | Inr results \<Rightarrow>
             (case search_each L ix comparison_features cdps of
                (Inl e, queries) \<Rightarrow> (Inl e, cdp_query # queries)
              | (Inr all_results, queries) \<Rightarrow>
                  (Inr (case results of
                          [] \<Rightarrow> all_results
                        | best # _ \<Rightarrow> (cdp, best) # all_results),
                   cdp_query # queries)))"

definition handle_comparison_question ::
  "composer \<Rightarrow> sklearn \<Rightarrow> indexer \<Rightarrow> string \<Rightarrow> outcome" where
  "handle_comparison_question C L ix question =
     (let mentioned_cdps = compared_cdps question;
          comparison_features = extract_comparison_features question
      in case search_each L ix comparison_features mentioned_cdps of
           (Inl e, queries) \<Rightarrow> (Inl e, queries)
         | (Inr all_results, queries) \<Rightarrow>
             (if all_results = []
              then (Inr (not_enough_message mentioned_cdps comparison_features), queries)
              else (Inr (compose_comparison C comparison_features mentioned_cdps all_results),
                    queries)))"

subsection \<open>\<open>answer_question\<close>\<close>

text \<open>\<open>answer_question\<close> behind its first statement, on the question that it works with.\<close>

definition answer_body :: "composer \<Rightarrow> sklearn \<Rightarrow> indexer \<Rightarrow> string \<Rightarrow> outcome" where
  "answer_body C L ix question =
     (if \<not> is_cdp_related question then (Inr refusal_message, [])
      else if is_comparison_question question
      then handle_comparison_question C L ix question
      else (let cdp = identify_cdp question
            in case search L ix question 3 of
                 Inl e \<Rightarrow> (Inr trouble_message, [question])
               | Inr results \<Rightarrow>
                   (if results = [] then (Inr no_results_message, [question])
                    else (Inr (format_response C results cdp), [question]))))"

definition answer_question :: "composer \<Rightarrow> sklearn \<Rightarrow> indexer \<Rightarrow> string \<Rightarrow> outcome" where
  "answer_question C L ix question =
     answer_body C L ix
       (if length question > 500 then truncate_question question else question)"

text \<open>A composer that names the platform and the best document, used to evaluate answers.\<close>

definition plain_composer :: composer where
  "plain_composer =
     \<lparr>format_response = (\<lambda>results cdp. join '', '' (map (\<lambda>r. url (document r)) results)),
      compose_comparison = (\<lambda>feature cdps all_results. join '' and '' (map fst all_results))\<rparr>"



section \<open>Facts about strings\<close>

lemma contains_sublist: "contains sub s = sublist sub s"
  by (induction s) (auto simp: sublist_Cons_right)

lemma lower_char_idem: "lower_char (lower_char c) = lower_char c"
proof -
  have "of_char (char_of (of_char c + 32 :: nat)) = (of_char c + 32 :: nat)"
    if "(of_char c :: nat) \<le> 222"
    using that by (simp add: of_char_of)
  then show ?thesis
    by (auto simp: lower_char_def Let_def)
qed

lemma lower_idem: "lower (lower s) = lower s"
  by (simp add: lower_def lower_char_idem)

lemma lower_length: "length (lower s) = length s"
  by (simp add: lower_def)

lemma lower_append: "lower (a @ b) = lower a @ lower b"
  by (simp add: lower_def)

lemma sublist_lower: "sublist a s \<Longrightarrow> sublist (lower a) (lower s)"
proof -
  assume "sublist a s"
  then obtain ps ss where "s = ps @ a @ ss"
    by (auto simp: sublist_def)
  then have "lower s = lower ps @ lower a @ lower ss"
    by (simp add: lower_append)
  then show ?thesis
    unfolding sublist_def by blast
qed

lemma lower_how_to: "lower ''how to'' = ''how to''"
  by code_simp

lemma lower_how_to_prefix: "lower (''how to '' @ s) = ''how to '' @ lower s"
proof -
  have "lower ''how to '' = ''how to ''"
    by code_simp
  then show ?thesis
    by (simp only: lower_append)
qed

lemma contains_how_to_prefix: "contains ''how to'' (''how to '' @ s)"
  by simp

lemma preprocess_query_idem: "preprocess_query (preprocess_query x) = preprocess_query x"
proof (cases "\<not> contains ''how to'' (lower x) \<and> \<not> contains ''how do i'' (lower x)
              \<and> contains_any query_action_verbs (lower x)")
  case True
  then have p: "preprocess_query x = ''how to '' @ lower x"
    by (simp add: preprocess_query_def)
  have "lower (''how to '' @ lower x) = ''how to '' @ lower x"
    by (simp only: lower_how_to_prefix lower_idem)
  moreover have "contains ''how to'' (''how to '' @ lower x)"
    by (rule contains_how_to_prefix)
  ultimately show ?thesis
    unfolding p by (simp add: preprocess_query_def Let_def del: contains.simps)
next
  case False
  then have p: "preprocess_query x = lower x"
    by (auto simp: preprocess_query_def Let_def)
  from False show ?thesis
    unfolding p by (auto simp: preprocess_query_def Let_def lower_idem)
qed

section \<open>Query preprocessing is idempotent\<close>

text \<open>
  C9. A query that already contains "how to" is a fixed point of a second preprocessing,
  and a query without "how to" and "how do i" is rewritten at most once: the result is the
  lower-cased query, or the lower-cased query behind a single "how to " prefix.
\<close>

theorem preprocess_query_idempotent:
  "(contains ''how to'' x \<longrightarrow> preprocess_query (preprocess_query x) = preprocess_query x)
   \<and> (\<not> contains ''how to'' (lower x) \<and> \<not> contains ''how do i'' (lower x) \<longrightarrow>
        preprocess_query x = lower x \<or> preprocess_query x = ''how to '' @ lower x)"
  by (auto simp: preprocess_query_idem) (auto simp: preprocess_query_def Let_def)

theorem preprocess_query_idempotent_witness:
  "contains ''how to'' ''Show how to USE a source''
   \<and> preprocess_query (preprocess_query ''Show how to USE a source'')
       = preprocess_query ''Show how to USE a source''
   \<and> \<not> contains ''how to'' (lower ''Create a Source'')
   \<and> \<not> contains ''how do i'' (lower ''Create a Source'')
   \<and> (preprocess_query ''Create a Source'' = lower ''Create a Source''
        \<or> preprocess_query ''Create a Source'' = ''how to '' @ lower ''Create a Source'')"
proof -
  have a: "contains ''how to'' ''Show how to USE a source''"
    by code_simp
  have b: "\<not> contains ''how to'' (lower ''Create a Source'')"
    by code_simp
  have c: "\<not> contains ''how do i'' (lower ''Create a Source'')"
    by code_simp
  from a b c preprocess_query_idempotent [of "''Show how to USE a source''"]
    preprocess_query_idempotent [of "''Create a Source''"]
  show ?thesis
    by blast
qed

section \<open>Facts about the search\<close>

lemma insort_key_lex:
  fixes f :: "nat \<Rightarrow> real"
  assumes "sorted_wrt (\<lambda>i j. f i < f j \<or> (f i = f j \<and> i < j)) ys" and "\<forall>y\<in>set ys. x < y"
  shows "sorted_wrt (\<lambda>i j. f i < f j \<or> (f i = f j \<and> i < j)) (insort_key f x ys)"
  using assms by (induction ys) (auto simp: set_insort_key)

lemma sort_key_lex:
  fixes f :: "nat \<Rightarrow> real"
  assumes "sorted_wrt (<) xs"
  shows "sorted_wrt (\<lambda>i j. f i < f j \<or> (f i = f j \<and> i < j)) (sort_key f xs)"
  using assms
proof (induction xs)
  case Nil
  then show ?case by simp
next
  case (Cons x xs)
  then have "\<forall>y\<in>set (sort_key f xs). x < y"
    by auto
  with Cons show ?case
    by (simp add: insort_key_lex)
qed

lemma stable_argsort_lex:
  "sorted_wrt (\<lambda>i j. s ! i < s ! j \<or> (s ! i = s ! j \<and> i < j)) (stable_argsort s)"
  unfolding stable_argsort_def by (rule sort_key_lex) (simp add: sorted_wrt_upt)

lemma stable_argsort_is_argsort: "is_argsort s (stable_argsort s)"
  by (simp add: is_argsort_def stable_argsort_def atLeast_upt)

lemma py_slice_from_drop: "\<exists>n. py_slice_from i xs = drop n xs"
  by (auto simp: py_slice_from_def Let_def)

lemma py_slice_from_zero: "py_slice_from 0 xs = xs"
  by (simp add: py_slice_from_def)

lemma py_slice_from_neg_length:
  "0 < k \<Longrightarrow> length (py_slice_from (- k) xs) = min (nat k) (length xs)"
  by (auto simp: py_slice_from_def Let_def max_def)

lemma is_argsort_length: "is_argsort s p \<Longrightarrow> length p = length s"
  using distinct_card [of p] by (simp add: is_argsort_def)

lemma top_indices_length:
  assumes "0 < k" and "is_argsort s (argsort L s)"
  shows "length (top_indices L s k) = min (nat k) (length s)"
proof (cases "s = []")
  case True
  with assms(2) show ?thesis
    by (simp add: top_indices_def is_argsort_def py_slice_from_def)
next
  case False
  then have "0 < min k (int (length s))"
    using assms(1) by simp
  then have "length (py_slice_from (- min k (int (length s))) (argsort L s))
             = min (nat (min k (int (length s)))) (length (argsort L s))"
    by (rule py_slice_from_neg_length)
  with assms show ?thesis
    by (auto simp: top_indices_def is_argsort_length)
qed

lemma top_indices_sorted:
  assumes "is_argsort s (argsort L s)"
  shows "sorted_wrt (\<lambda>i j. s ! j \<le> s ! i) (top_indices L s k)"
proof -
  obtain n where n: "py_slice_from (- min k (int (length s))) (argsort L s) = drop n (argsort L s)"
    using py_slice_from_drop by blast
  from assms have "sorted_wrt (\<lambda>i j. s ! i \<le> s ! j) (argsort L s)"
    by (simp add: is_argsort_def sorted_map)
  then have "sorted_wrt (\<lambda>i j. s ! i \<le> s ! j) (drop n (argsort L s))"
    by (rule sorted_wrt_drop)
  then show ?thesis
    by (simp add: top_indices_def n sorted_wrt_rev)
qed

lemma collect_scores:
  "collect docs s idxs = Inr rs \<Longrightarrow> set (map score rs) \<subseteq> (\<lambda>i. s ! i) ` set idxs
     \<and> length rs \<le> length idxs \<and> (\<forall>r\<in>set rs. 1 / 10 < score r)"
proof (induction idxs arbitrary: rs)
  case Nil
  then show ?case by simp
next
  case (Cons idx rest)
  then show ?case
    by (fastforce split: if_splits sum.splits)
qed

lemma collect_sorted:
  "collect docs s idxs = Inr rs \<Longrightarrow> sorted_wrt (\<lambda>i j. s ! j \<le> s ! i) idxs
     \<Longrightarrow> sorted_wrt (\<lambda>a b. score b \<le> score a) rs"
proof (induction idxs arbitrary: rs)
  case Nil
  then show ?case by simp
next
  case (Cons idx rest)
  show ?case
  proof (cases "idx < length s \<and> 1 / 10 < s ! idx \<and> idx < length docs")
    case True
    then obtain rs' where r: "collect docs s rest = Inr rs'"
      and rs: "rs = \<lparr>document = docs ! idx, score = s ! idx\<rparr> # rs'"
      using Cons.prems(1) by (auto split: sum.splits)
    from collect_scores [OF r] have "\<forall>b\<in>set rs'. score b \<in> (\<lambda>i. s ! i) ` set rest"
      by auto
    with Cons.prems(2) have "\<forall>b\<in>set rs'. score b \<le> s ! idx"
      by auto
    moreover have "sorted_wrt (\<lambda>a b. score b \<le> score a) rs'"
      using Cons.IH [OF r] Cons.prems(2) by simp
    ultimately show ?thesis
      by (simp add: rs)
  next
    case False
    with Cons.prems(1) have "collect docs s rest = Inr rs"
      by (auto split: if_splits)
    with Cons show ?thesis
      by simp
  qed
qed

text \<open>
  What the search does for a positive \<open>top_k\<close>: at most \<open>top_k\<close> results and at most one per
  row, every score above 0.1, in non-increasing order of score.
\<close>

lemma search_positive_top_k:
  assumes "search L ix q k = Inr rs" and "0 < k" and "\<forall>s. is_argsort s (argsort L s)"
    and "tfidf_matrix ix = Some M"
    and "\<forall>s. cosine_scores L (preprocess_query q) M = Inr s \<longrightarrow> length s = length M"
  shows "length rs \<le> nat k \<and> length rs \<le> length M \<and> (\<forall>r\<in>set rs. 1 / 10 < score r)
         \<and> sorted_wrt (\<lambda>a b. score b \<le> score a) rs"
proof -
  from assms(1,4) obtain s where s: "cosine_scores L (preprocess_query q) M = Inr s"
    and c: "collect (documents ix) s (top_indices L s k) = Inr rs"
    by (auto simp: search_def split: if_splits sum.splits)
  from assms(5) s have len: "length s = length M"
    by simp
  from assms(3) have a: "is_argsort s (argsort L s)"
    by simp
  have "length (top_indices L s k) = min (nat k) (length s)"
    using assms(2) a by (rule top_indices_length)
  moreover have "sorted_wrt (\<lambda>a b. score b \<le> score a) rs"
    using c top_indices_sorted [OF a] by (rule collect_sorted)
  ultimately show ?thesis
    using collect_scores [OF c] len by auto
qed

lemma top_indices_zero: "top_indices L s 0 = rev (argsort L s)"
  by (simp add: top_indices_def py_slice_from_zero min_def)

lemma collect_filter:
  "collect docs s idxs = Inr rs \<Longrightarrow>
     rs = map (\<lambda>i. \<lparr>document = docs ! i, score = s ! i\<rparr>) (filter (\<lambda>i. 1 / 10 < s ! i) idxs)"
proof (induction idxs arbitrary: rs)
  case Nil
  then show ?case by simp
next
  case (Cons idx rest)
  then show ?case
    by (auto split: if_splits sum.splits)
qed

lemma top_indices_subseq: "subseq (top_indices L s k) (rev (argsort L s))"
proof -
  obtain n where n: "py_slice_from (- min k (int (length s))) (argsort L s) = drop n (argsort L s)"
    using py_slice_from_drop by blast
  have "subseq (take (length (argsort L s) - n) (rev (argsort L s)))
          (take (length (argsort L s) - n) (rev (argsort L s))
           @ drop (length (argsort L s) - n) (rev (argsort L s)))"
    by (rule subseq_rev_drop_many) simp
  then have "subseq (rev (drop n (argsort L s))) (rev (argsort L s))"
    by (simp add: rev_drop)
  then show ?thesis
    by (simp add: top_indices_def n)
qed

lemma top_indices_order:
  assumes "sorted_wrt R (argsort L s)"
  shows "sorted_wrt (\<lambda>i j. R j i) (top_indices L s k)"
proof -
  obtain n where n: "py_slice_from (- min k (int (length s))) (argsort L s) = drop n (argsort L s)"
    using py_slice_from_drop by blast
  from assms have "sorted_wrt R (drop n (argsort L s))"
    by (rule sorted_wrt_drop)
  then show ?thesis
    by (simp add: top_indices_def n sorted_wrt_rev)
qed

lemma insort_key_lex_desc:
  fixes f :: "nat \<Rightarrow> real"
  assumes "sorted_wrt (\<lambda>i j. f i < f j \<or> (f i = f j \<and> j < i)) ys" and "\<forall>y\<in>set ys. y < x"
  shows "sorted_wrt (\<lambda>i j. f i < f j \<or> (f i = f j \<and> j < i)) (insort_key f x ys)"
  using assms by (induction ys) (auto simp: set_insort_key)

lemma sort_key_lex_desc:
  fixes f :: "nat \<Rightarrow> real"
  assumes "sorted_wrt (\<lambda>i j. j < i) xs"
  shows "sorted_wrt (\<lambda>i j. f i < f j \<or> (f i = f j \<and> j < i)) (sort_key f xs)"
  using assms
proof (induction xs)
  case Nil
  then show ?case by simp
next
  case (Cons x xs)
  then have "\<forall>y\<in>set (sort_key f xs). y < x"
    by auto
  with Cons show ?case
    by (simp add: insort_key_lex_desc)
qed

lemma argsort_ties_desc_lex:
  "sorted_wrt (\<lambda>i j. s ! i < s ! j \<or> (s ! i = s ! j \<and> j < i)) (argsort_ties_desc s)"
  unfolding argsort_ties_desc_def
  by (rule sort_key_lex_desc) (simp add: sorted_wrt_rev sorted_wrt_upt)

lemma argsort_ties_desc_is_argsort: "is_argsort s (argsort_ties_desc s)"
  by (simp add: is_argsort_def argsort_ties_desc_def atLeast_upt)

lemma lib_ties_asc_is_argsort: "\<forall>s. is_argsort s (argsort lib_ties_asc s)"
  by (simp add: lib_ties_asc_def stable_argsort_is_argsort)

lemma lib_ties_desc_is_argsort: "\<forall>s. is_argsort s (argsort lib_ties_desc s)"
  by (simp add: lib_ties_desc_def argsort_ties_desc_is_argsort)

lemma search_three_docs_asc:
  "search lib_ties_asc three_docs ''sources'' 3
     = Inr [\<lparr>document = doc_lytics_sources, score = 1\<rparr>,
            \<lparr>document = doc_segment_sources, score = 1\<rparr>]"
  by (simp add: search_def three_docs_def lib_ties_asc_def top_indices_def stable_argsort_def
      py_slice_from_def)

lemma search_three_docs_desc:
  "search lib_ties_desc three_docs ''sources'' 3
     = Inr [\<lparr>document = doc_segment_sources, score = 1\<rparr>,
            \<lparr>document = doc_lytics_sources, score = 1\<rparr>]"
  by (simp add: search_def three_docs_def lib_ties_desc_def top_indices_def
      argsort_ties_desc_def py_slice_from_def)

section \<open>The number of results\<close>

text \<open>
  C2. With \<open>top_k = 0\<close> the slice \<open>[-top_k:]\<close> keeps every position, so the search returns
  every document that scores above 0.1, in the reverse of the order of \<open>argsort\<close>: more than
  \<open>top_k\<close> results. (For a positive \<open>top_k\<close> the bounds hold: \<open>search_positive_top_k\<close>.)
\<close>

theorem search_top_k_zero_returns_all:
  assumes "tfidf_matrix ix = Some M" and "M \<noteq> []"
    and "cosine_scores L (preprocess_query q) M = Inr s"
  shows "search L ix q 0 = collect (documents ix) s (rev (argsort L s))"
  using assms by (simp add: search_def top_indices_zero)

theorem search_top_k_zero_returns_all_witness:
  "search lib_ranked two_docs ''segment'' 0
     = Inr [\<lparr>document = doc_a, score = 9 / 10\<rparr>, \<lparr>document = doc_b, score = 1 / 2\<rparr>]"
proof -
  have "tfidf_matrix two_docs = Some [[1, 0], [0, 1]]"
    by (simp add: two_docs_def)
  moreover have "cosine_scores lib_ranked (preprocess_query ''segment'') [[1, 0], [0, 1]]
                 = Inr [9 / 10, 1 / 2]"
    by (simp add: lib_ranked_def)
  ultimately have "search lib_ranked two_docs ''segment'' 0
      = collect (documents two_docs) [9 / 10, 1 / 2] (rev (argsort lib_ranked [9 / 10, 1 / 2]))"
    by (intro search_top_k_zero_returns_all) simp_all
  then show ?thesis
    by (simp add: two_docs_def lib_ranked_def stable_argsort_def)
qed

section \<open>Searching before the documents are loaded\<close>

text \<open>
  C4. On an indexer on which \<open>load_documents\<close> has not run, \<open>search\<close> fails for every query
  and every \<open>top_k\<close> with the \<open>AttributeError\<close> of \<open>None.shape\<close>, not with the
  \<open>ValueError\<close> that its first statement is written to raise.
\<close>

theorem search_before_load_documents:
  "search L indexer_init query top_k = Inl AttributeError
   \<and> search L indexer_init query top_k \<noteq> Inl ValueError"
  by (simp add: search_def indexer_init_def)

section \<open>The order of results with equal scores\<close>

text \<open>
  C5, as the claim states it, is not what \<open>search\<close> does for every \<open>argsort\<close> that lists
  the positions in ascending order of their values, which is all that \<open>np.argsort\<close> with its
  default kind promises. On the index of three documents whose first two score the same,
  an \<open>argsort\<close> that keeps equal values in ascending position makes \<open>search\<close> return the
  second document before the first, against the order of insertion; an \<open>argsort\<close> that
  lists equal values in descending position makes it return them in the order of
  insertion. The scores are the same in both cases.
\<close>

theorem search_tie_order_counterexample:
  "(\<forall>s. is_argsort s (argsort lib_ties_asc s)) \<and> (\<forall>s. is_argsort s (argsort lib_ties_desc s))
   \<and> cosine_scores lib_ties_asc = cosine_scores lib_ties_desc
   \<and> documents three_docs = [doc_segment_sources, doc_lytics_sources, doc_zeotap_audiences]
   \<and> search lib_ties_asc three_docs ''sources'' 3
       = Inr [\<lparr>document = doc_lytics_sources, score = 1\<rparr>,
              \<lparr>document = doc_segment_sources, score = 1\<rparr>]
   \<and> search lib_ties_desc three_docs ''sources'' 3
       = Inr [\<lparr>document = doc_segment_sources, score = 1\<rparr>,
              \<lparr>document = doc_lytics_sources, score = 1\<rparr>]"
proof -
  have "cosine_scores lib_ties_asc = cosine_scores lib_ties_desc"
    by (simp add: lib_ties_asc_def lib_ties_desc_def)
  moreover have "documents three_docs
                 = [doc_segment_sources, doc_lytics_sources, doc_zeotap_audiences]"
    by (simp add: three_docs_def)
  ultimately show ?thesis
    using lib_ties_asc_is_argsort lib_ties_desc_is_argsort search_three_docs_asc
      search_three_docs_desc by simp
qed

text \<open>
  C5, amended. For every \<open>argsort\<close> that lists the positions in ascending order of their
  values, the results of a search are the documents at a list of positions \<open>idxs\<close> with
  their scores, in non-increasing order of score, and \<open>idxs\<close> is a subsequence of the
  reversed output of \<open>argsort\<close>: \<open>search\<close> breaks no tie itself, results of equal score come
  in the reverse of the order in which \<open>argsort\<close> lists them. So with an \<open>argsort\<close> that
  keeps equal values in ascending position they come in descending position, the reverse
  of the order of insertion, and with one that lists equal values in descending position
  they come in the order of insertion.
\<close>

theorem search_tie_order:
  assumes "\<forall>s. is_argsort s (argsort L s)" and "search L ix q k = Inr rs"
  shows "\<exists>M s idxs. tfidf_matrix ix = Some M
           \<and> cosine_scores L (preprocess_query q) M = Inr s
           \<and> rs = map (\<lambda>i. \<lparr>document = documents ix ! i, score = s ! i\<rparr>) idxs
           \<and> sorted_wrt (\<lambda>a b. score b \<le> score a) rs
           \<and> subseq idxs (rev (argsort L s))
           \<and> (argsort L s = stable_argsort s \<longrightarrow>
                  sorted_wrt (\<lambda>i j. s ! j < s ! i \<or> (s ! i = s ! j \<and> j < i)) idxs)
           \<and> (argsort L s = argsort_ties_desc s \<longrightarrow>
                  sorted_wrt (\<lambda>i j. s ! j < s ! i \<or> (s ! i = s ! j \<and> i < j)) idxs)"
proof -
  from assms(2) obtain M s where M: "tfidf_matrix ix = Some M"
    and s: "cosine_scores L (preprocess_query q) M = Inr s"
    and c: "collect (documents ix) s (top_indices L s k) = Inr rs"
    by (auto simp: search_def split: option.splits if_splits sum.splits)
  define idxs where "idxs = filter (\<lambda>i. 1 / 10 < s ! i) (top_indices L s k)"
  have rs: "rs = map (\<lambda>i. \<lparr>document = documents ix ! i, score = s ! i\<rparr>) idxs"
    unfolding idxs_def using c by (rule collect_filter)
  from assms(1) have a: "is_argsort s (argsort L s)"
    by simp
  have sorted: "sorted_wrt (\<lambda>a b. score b \<le> score a) rs"
    using c top_indices_sorted [OF a] by (rule collect_sorted)
  have "subseq idxs (top_indices L s k)"
    unfolding idxs_def by simp
  then have sub: "subseq idxs (rev (argsort L s))"
    using top_indices_subseq by (rule subseq_order.order_trans)
  have asc: "sorted_wrt (\<lambda>i j. s ! j < s ! i \<or> (s ! i = s ! j \<and> j < i)) idxs"
    if "argsort L s = stable_argsort s"
  proof -
    have "sorted_wrt (\<lambda>i j. s ! i < s ! j \<or> (s ! i = s ! j \<and> i < j)) (argsort L s)"
      unfolding that by (rule stable_argsort_lex)
    then have "sorted_wrt (\<lambda>i j. s ! j < s ! i \<or> (s ! j = s ! i \<and> j < i)) (top_indices L s k)"
      by (rule top_indices_order)
    then have "sorted_wrt (\<lambda>i j. s ! j < s ! i \<or> (s ! i = s ! j \<and> j < i)) (top_indices L s k)"
      by (rule sorted_wrt_mono_rel [rotated]) auto
    then show ?thesis
      unfolding idxs_def by (rule sorted_wrt_filter)
  qed
  have desc: "sorted_wrt (\<lambda>i j. s ! j < s ! i \<or> (s ! i = s ! j \<and> i < j)) idxs"
    if "argsort L s = argsort_ties_desc s"
  proof -
    have "sorted_wrt (\<lambda>i j. s ! i < s ! j \<or> (s ! i = s ! j \<and> j < i)) (argsort L s)"
      unfolding that by (rule argsort_ties_desc_lex)
    then have "sorted_wrt (\<lambda>i j. s ! j < s ! i \<or> (s ! j = s ! i \<and> i < j)) (top_indices L s k)"
      by (rule top_indices_order)
    then have "sorted_wrt (\<lambda>i j. s ! j < s ! i \<or> (s ! i = s ! j \<and> i < j)) (top_indices L s k)"
      by (rule sorted_wrt_mono_rel [rotated]) auto
    then show ?thesis
      unfolding idxs_def by (rule sorted_wrt_filter)
  qed
  from M s rs sorted sub asc desc show ?thesis
    by blast
qed

theorem search_tie_order_witness:
  "(\<forall>s. is_argsort s (argsort lib_ties_asc s))
   \<and> search lib_ties_asc three_docs ''sources'' 3
       = Inr [\<lparr>document = doc_lytics_sources, score = 1\<rparr>,
              \<lparr>document = doc_segment_sources, score = 1\<rparr>]
   \<and> (\<exists>idxs. [\<lparr>document = doc_lytics_sources, score = 1\<rparr>,
                \<lparr>document = doc_segment_sources, score = 1\<rparr>]
               = map (\<lambda>i. \<lparr>document = documents three_docs ! i, score = [1, 1, 0] ! i\<rparr>) idxs
         \<and> subseq idxs (rev (stable_argsort [1, 1, 0]))
         \<and> sorted_wrt (\<lambda>i j. [1, 1, 0 :: real] ! j < [1, 1, 0] ! i
                               \<or> ([1, 1, 0 :: real] ! i = [1, 1, 0] ! j \<and> j < i)) idxs)
   \<and> (\<forall>s. is_argsort s (argsort lib_ties_desc s))
   \<and> search lib_ties_desc three_docs ''sources'' 3
       = Inr [\<lparr>document = doc_segment_sources, score = 1\<rparr>,
              \<lparr>document = doc_lytics_sources, score = 1\<rparr>]
   \<and> (\<exists>idxs. [\<lparr>document = doc_segment_sources, score = 1\<rparr>,
                \<lparr>document = doc_lytics_sources, score = 1\<rparr>]
               = map (\<lambda>i. \<lparr>document = documents three_docs ! i, score = [1, 1, 0] ! i\<rparr>) idxs
         \<and> subseq idxs (rev (argsort_ties_desc [1, 1, 0]))
         \<and> sorted_wrt (\<lambda>i j. [1, 1, 0 :: real] ! j < [1, 1, 0] ! i
                               \<or> ([1, 1, 0 :: real] ! i = [1, 1, 0] ! j \<and> i < j)) idxs)"
proof -
  have asc: "\<exists>idxs. [\<lparr>document = doc_lytics_sources, score = 1\<rparr>,
                     \<lparr>document = doc_segment_sources, score = 1\<rparr>]
               = map (\<lambda>i. \<lparr>document = documents three_docs ! i, score = [1, 1, 0] ! i\<rparr>) idxs
         \<and> subseq idxs (rev (stable_argsort [1, 1, 0]))
         \<and> sorted_wrt (\<lambda>i j. [1, 1, 0 :: real] ! j < [1, 1, 0] ! i
                               \<or> ([1, 1, 0 :: real] ! i = [1, 1, 0] ! j \<and> j < i)) idxs"
  proof -
    from search_tie_order [OF lib_ties_asc_is_argsort search_three_docs_asc]
    obtain M s idxs where s: "cosine_scores lib_ties_asc (preprocess_query ''sources'') M = Inr s"
      and rs: "[\<lparr>document = doc_lytics_sources, score = 1\<rparr>,
                \<lparr>document = doc_segment_sources, score = 1\<rparr>]
               = map (\<lambda>i. \<lparr>document = documents three_docs ! i, score = s ! i\<rparr>) idxs"
      and sub: "subseq idxs (rev (argsort lib_ties_asc s))"
      and ord: "argsort lib_ties_asc s = stable_argsort s \<longrightarrow>
                  sorted_wrt (\<lambda>i j. s ! j < s ! i \<or> (s ! i = s ! j \<and> j < i)) idxs"
      by (elim exE conjE) (rule that)
    from s have e: "s = [1, 1, 0]"
      by (simp add: lib_ties_asc_def)
    have a: "argsort lib_ties_asc = stable_argsort"
      by (simp add: lib_ties_asc_def)
    from rs sub ord show ?thesis
      unfolding e a by (intro exI [of _ idxs]) simp
  qed
  have desc: "\<exists>idxs. [\<lparr>document = doc_segment_sources, score = 1\<rparr>,
                      \<lparr>document = doc_lytics_sources, score = 1\<rparr>]
               = map (\<lambda>i. \<lparr>document = documents three_docs ! i, score = [1, 1, 0] ! i\<rparr>) idxs
         \<and> subseq idxs (rev (argsort_ties_desc [1, 1, 0]))
         \<and> sorted_wrt (\<lambda>i j. [1, 1, 0 :: real] ! j < [1, 1, 0] ! i
                               \<or> ([1, 1, 0 :: real] ! i = [1, 1, 0] ! j \<and> i < j)) idxs"
  proof -
    from search_tie_order [OF lib_ties_desc_is_argsort search_three_docs_desc]
    obtain M s idxs where s: "cosine_scores lib_ties_desc (preprocess_query ''sources'') M = Inr s"
      and rs: "[\<lparr>document = doc_segment_sources, score = 1\<rparr>,
                \<lparr>document = doc_lytics_sources, score = 1\<rparr>]
               = map (\<lambda>i. \<lparr>document = documents three_docs ! i, score = s ! i\<rparr>) idxs"
      and sub: "subseq idxs (rev (argsort lib_ties_desc s))"
      and ord: "argsort lib_ties_desc s = argsort_ties_desc s \<longrightarrow>
                  sorted_wrt (\<lambda>i j. s ! j < s ! i \<or> (s ! i = s ! j \<and> i < j)) idxs"
      by (elim exE conjE) (rule that)
    from s have e: "s = [1, 1, 0]"
      by (simp add: lib_ties_desc_def)
    have a: "argsort lib_ties_desc = argsort_ties_desc"
      by (simp add: lib_ties_desc_def)
    from rs sub ord show ?thesis
      unfolding e a by (intro exI [of _ idxs]) simp
  qed
  from asc desc show ?thesis
    using lib_ties_asc_is_argsort lib_ties_desc_is_argsort search_three_docs_asc
      search_three_docs_desc by simp
qed

section \<open>Facts about the classifier\<close>

lemma contains_any_iff: "contains_any ps s = (\<exists>p\<in>set ps. sublist p s)"
  by (simp add: contains_any_def list_ex_iff contains_sublist)

lemma lower_drop: "lower (drop n s) = drop n (lower s)"
  by (simp add: lower_def drop_map)

lemma sublist_drop_lower: "sublist k (lower (drop n s)) \<Longrightarrow> sublist k (lower s)"
  unfolding lower_drop using sublist_drop sublist_order.order_trans by blast


lemma truncate_loop_drop: "\<exists>n. truncate_loop markers q = drop n q"
  by (induction markers) (auto simp: Let_def)

lemma truncate_question_drop: "\<exists>n. truncate_question q = drop n q"
  unfolding truncate_question_def by (rule truncate_loop_drop)

lemma is_cdp_related_iff:
  "is_cdp_related q =
     (contains_any supported_cdps (lower q) \<or> contains_any cdp_keywords (lower q)
      \<or> (contains_any how_to_patterns (lower q) \<and> contains_any action_verbs (lower q)))"
  by (auto simp: is_cdp_related_def Let_def contains_any_def list_ex_iff)

lemma is_cdp_related_drop: "is_cdp_related (drop n q) \<Longrightarrow> is_cdp_related q"
  unfolding is_cdp_related_iff contains_any_iff
  by (meson sublist_drop_lower)

lemma answer_body_unrelated:
  "\<not> is_cdp_related t \<Longrightarrow> answer_body C L ix t = (Inr refusal_message, [])"
  by (simp add: answer_body_def)

lemma identify_loop_phrase:
  assumes "contains_any segmentation_phrases ql"
  shows "identify_loop supported_cdps ql
         = find (\<lambda>cdp. cdp \<noteq> ''segment'' \<and> contains cdp ql) supported_cdps"
  using assms by (simp add: supported_cdps_def)

section \<open>Questions outside the domain\<close>

text \<open>
  C7. A question that contains, in lower case, no name of a supported platform, no domain
  keyword and no how-to pattern together with an action verb is answered with the refusal
  message, and no search is made: the list of queries is empty. This holds for questions
  of every length, since truncation keeps a part of the question.
\<close>

theorem answer_question_refusal:
  assumes "\<not> contains_any supported_cdps (lower q)"
    and "\<not> contains_any cdp_keywords (lower q)"
    and "\<not> (contains_any how_to_patterns (lower q) \<and> contains_any action_verbs (lower q))"
  shows "answer_question C L ix q = (Inr refusal_message, [])"
proof -
  from assms have n: "\<not> is_cdp_related q"
    by (simp add: is_cdp_related_iff)
  obtain k where k: "truncate_question q = drop k q"
    using truncate_question_drop by blast
  from n have "\<not> is_cdp_related (truncate_question q)"
    unfolding k using is_cdp_related_drop by blast
  with n show ?thesis
    by (simp add: answer_question_def answer_body_unrelated)
qed

theorem answer_question_refusal_witness:
  "\<not> contains_any supported_cdps (lower ''What is the weather today?'')
   \<and> \<not> contains_any cdp_keywords (lower ''What is the weather today?'')
   \<and> answer_question plain_composer lib_ranked two_docs ''What is the weather today?''
       = (Inr refusal_message, [])"
proof -
  have a: "\<not> contains_any supported_cdps (lower ''What is the weather today?'')"
    by code_simp
  have b: "\<not> contains_any cdp_keywords (lower ''What is the weather today?'')"
    by code_simp
  have c: "\<not> (contains_any how_to_patterns (lower ''What is the weather today?'')
              \<and> contains_any action_verbs (lower ''What is the weather today?''))"
    by code_simp
  from a b answer_question_refusal [OF a b c] show ?thesis
    by simp
qed

section \<open>Generic segment phrases are no comparisons\<close>

text \<open>
  C6. A question with a generic "X segment" phrase and none of the keywords "compare",
  "versus", "vs", "difference between" is not a comparison question, whatever else it
  contains.
\<close>

theorem generic_segment_phrase_is_no_comparison:
  assumes "contains_any non_comparison_phrases (lower q)"
    and "\<not> contains_any explicit_comparison_keywords (lower q)"
  shows "\<not> is_comparison_question q"
  using assms by (auto simp: is_comparison_question_def Let_def contains_any_def list_ex_iff)

theorem generic_segment_phrase_is_no_comparison_witness:
  "contains_any non_comparison_phrases
     (lower ''Which is the best audience segment for mParticle and Lytics?'')
   \<and> contains_any comparison_keywords
       (lower ''Which is the best audience segment for mParticle and Lytics?'')
   \<and> \<not> is_comparison_question ''Which is the best audience segment for mParticle and Lytics?''"
proof -
  have a: "contains_any non_comparison_phrases
             (lower ''Which is the best audience segment for mParticle and Lytics?'')"
    by code_simp
  have b: "\<not> contains_any explicit_comparison_keywords
             (lower ''Which is the best audience segment for mParticle and Lytics?'')"
    by code_simp
  have c: "contains_any comparison_keywords
             (lower ''Which is the best audience segment for mParticle and Lytics?'')"
    by code_simp
  from a c generic_segment_phrase_is_no_comparison [OF a b] show ?thesis
    by simp
qed

section \<open>The platform of a question with a generic segment phrase\<close>

text \<open>
  C3, as the claim states it, fails: in a question with a generic segment phrase the
  platform "segment" is not identified even where the strict patterns match it.
\<close>

theorem identify_cdp_strict_pattern_counterexample:
  "contains_any segmentation_phrases (lower ''Use Segment CDP for an audience segment'')
   \<and> list_all (\<lambda>cdp. cdp = ''segment''
                  \<or> \<not> contains cdp (lower ''Use Segment CDP for an audience segment''))
       supported_cdps
   \<and> re_matches [Lit ''segment'', Rep Space_char 1 True False, Lit ''cdp'']
       (lower ''Use Segment CDP for an audience segment'')
   \<and> re_matches [Word_boundary, Lit ''segment'', Word_boundary]
       (lower ''Use Segment CDP for an audience segment'')
   \<and> identify_cdp ''Use Segment CDP for an audience segment'' = None"
  by code_simp

text \<open>
  C3, amended. In a question with a generic segment phrase the platform "segment" is never
  identified: the result is the first other supported platform that the question names,
  and nothing if it names none. "How do I create an audience segment?" yields nothing.
\<close>

theorem identify_cdp_generic_segment_phrase:
  "(contains_any segmentation_phrases (lower q) \<longrightarrow>
      identify_cdp q = find (\<lambda>cdp. cdp \<noteq> ''segment'' \<and> contains cdp (lower q)) supported_cdps
      \<and> identify_cdp q \<noteq> Some ''segment'')
   \<and> identify_cdp ''How do I create an audience segment?'' = None"
proof -
  have "identify_cdp ''How do I create an audience segment?'' = None"
    by code_simp
  moreover have "identify_cdp q = find (\<lambda>cdp. cdp \<noteq> ''segment'' \<and> contains cdp (lower q)) supported_cdps"
    if "contains_any segmentation_phrases (lower q)"
    using that by (auto simp: identify_cdp_def Let_def identify_loop_phrase split: option.splits)
  moreover have "find (\<lambda>cdp. cdp \<noteq> ''segment'' \<and> contains cdp (lower q)) supported_cdps \<noteq> Some ''segment''"
    by (auto simp: find_Some_iff)
  ultimately show ?thesis
    by simp
qed

theorem identify_cdp_generic_segment_phrase_witness:
  "contains_any segmentation_phrases (lower ''How do I build an audience segment in Lytics?'')
   \<and> identify_cdp ''How do I build an audience segment in Lytics?'' = Some ''lytics''"
proof -
  have a: "contains_any segmentation_phrases
             (lower ''How do I build an audience segment in Lytics?'')"
    by code_simp
  have b: "find (\<lambda>cdp. cdp \<noteq> ''segment''
                  \<and> contains cdp (lower ''How do I build an audience segment in Lytics?''))
             supported_cdps = Some ''lytics''"
    by code_simp
  from a b identify_cdp_generic_segment_phrase
    [of "''How do I build an audience segment in Lytics?''"]
  show ?thesis
    by simp
qed

section \<open>Facts about the comparison handler\<close>

lemma search_each_fails:
  assumes "\<forall>query. search L ix query 3 = Inl e" and "cdps \<noteq> []"
  shows "fst (search_each L ix f cdps) = Inl e"
  using assms by (cases cdps) (simp_all add: Let_def)

lemma search_each_succeeds:
  assumes "\<forall>query. \<exists>results. search L ix query 3 = Inr results"
  shows "\<exists>all_results. search_each L ix f cdps
           = (Inr all_results, map (\<lambda>cdp. f @ '' in '' @ cdp) cdps)"
proof (induction cdps)
  case Nil
  then show ?case by simp
next
  case (Cons cdp cdps)
  from assms obtain results where "search L ix (f @ '' in '' @ cdp) 3 = Inr results"
    by blast
  with Cons show ?case
    by (auto simp: Let_def)
qed


lemma length_filter_not_in:
  assumes "distinct xs"
  shows "length xs - length m \<le> length (filter (\<lambda>x. x \<notin> set m) xs)"
proof -
  have "set (filter (\<lambda>x. x \<notin> set m) xs) = set xs - set m"
    by auto
  moreover have "distinct (filter (\<lambda>x. x \<notin> set m) xs)"
    using assms by simp
  ultimately have "length (filter (\<lambda>x. x \<notin> set m) xs) = card (set xs - set m)"
    using distinct_card by metis
  moreover have "card (set xs) - card (set m) \<le> card (set xs - set m)"
    by (simp add: diff_card_le_card_Diff)
  moreover have "card (set xs) = length xs" "card (set m) \<le> length m"
    using assms by (simp_all add: distinct_card card_length)
  ultimately show ?thesis
    by linarith
qed

lemma compared_cdps_length: "length (compared_cdps q) = 2"
proof -
  have d: "distinct supported_cdps" and l: "length supported_cdps = 4"
    by (simp_all add: supported_cdps_def)
  define m0 where "m0 = filter (\<lambda>cdp. contains cdp (lower q)) supported_cdps"
  define m1 where "m1 = infer_cdps supported_cdps (lower q) m0"
  have p: "2 - length m1 \<le> length (filter (\<lambda>x. x \<notin> set m1) supported_cdps)" if "length m1 < 2"
    using length_filter_not_in [OF d, of m1] l that by linarith
  have c: "compared_cdps q =
             take 2 (if length m0 < 2
                     then (if length m1 < 2
                           then m1 @ take (2 - length m1)
                                       (filter (\<lambda>cdp. cdp \<notin> set m1) supported_cdps)
                           else m1)
                     else m0)"
    by (simp add: compared_cdps_def Let_def m0_def m1_def)
  show ?thesis
    unfolding c using p by (auto simp: min_def)
qed

lemma handle_comparison_fails:
  assumes "\<forall>query. search L ix query 3 = Inl e"
  shows "fst (handle_comparison_question C L ix q) = Inl e"
proof -
  have "compared_cdps q \<noteq> []"
    using compared_cdps_length [of q] by auto
  with assms have "fst (search_each L ix (extract_comparison_features q) (compared_cdps q)) = Inl e"
    by (rule search_each_fails)
  then show ?thesis
    by (auto simp: handle_comparison_question_def Let_def split: prod.splits sum.splits)
qed


lemma answer_body_comparison_fails:
  assumes "is_cdp_related t" and "is_comparison_question t"
    and "\<forall>query. search L ix query 3 = Inl e"
  shows "fst (answer_body C L ix t) = Inl e"
  using assms by (simp add: answer_body_def handle_comparison_fails)

lemma answer_body_single_fails:
  assumes "is_cdp_related t" and "\<not> is_comparison_question t"
    and "\<forall>query. search L ix query 3 = Inl e"
  shows "answer_body C L ix t = (Inr trouble_message, [t])"
  using assms by (simp add: answer_body_def)

lemma search_lib_failing: "search lib_failing three_docs query k = Inl LibraryError"
  by (simp add: search_def three_docs_def lib_failing_def)

lemma search_indexer_init: "search L indexer_init query k = Inl AttributeError"
  by (simp add: search_def indexer_init_def)

section \<open>Exceptions of the search\<close>

text \<open>
  C1. When every search raises the exception \<open>e\<close>, a question that is related to the
  platforms and is a comparison question makes \<open>answer_question\<close> raise \<open>e\<close> to its caller:
  the search of \<open>_handle_comparison_question\<close> stands in no \<open>try\<close>. A related question
  that is no comparison question is answered with the message "I'm having trouble
  processing that question ...", as the \<open>except\<close> clause of \<open>answer_question\<close> has it.
  \<open>t\<close> is the question that \<open>answer_question\<close> works with, truncated if it is longer than
  500 characters.
\<close>

theorem answer_question_search_error:
  assumes "\<forall>query. search L ix query 3 = Inl e"
    and "t = (if 500 < length q then truncate_question q else q)"
    and "is_cdp_related t"
  shows "(is_comparison_question t \<longrightarrow> fst (answer_question C L ix q) = Inl e)
         \<and> (\<not> is_comparison_question t \<longrightarrow>
               answer_question C L ix q = (Inr trouble_message, [t]))"
proof -
  have "answer_question C L ix q = answer_body C L ix t"
    by (simp add: answer_question_def assms(2))
  with assms(1,3) show ?thesis
    by (simp add: answer_body_comparison_fails answer_body_single_fails)
qed

theorem answer_question_search_error_witness:
  "(\<forall>query. search lib_failing three_docs query 3 = Inl LibraryError)
   \<and> (\<forall>query. search lib_ranked indexer_init query 3 = Inl AttributeError)
   \<and> is_cdp_related ''Segment vs mParticle'' \<and> is_comparison_question ''Segment vs mParticle''
   \<and> fst (answer_question plain_composer lib_failing three_docs ''Segment vs mParticle'')
       = Inl LibraryError
   \<and> fst (answer_question plain_composer lib_ranked indexer_init ''Segment vs mParticle'')
       = Inl AttributeError
   \<and> is_cdp_related ''How do I add a source in Segment?''
   \<and> \<not> is_comparison_question ''How do I add a source in Segment?''
   \<and> answer_question plain_composer lib_failing three_docs ''How do I add a source in Segment?''
       = (Inr trouble_message, [''How do I add a source in Segment?''])"
proof -
  have s: "\<forall>query. search lib_failing three_docs query 3 = Inl LibraryError"
    by (simp add: search_lib_failing)
  have s': "\<forall>query. search lib_ranked indexer_init query 3 = Inl AttributeError"
    by (simp add: search_indexer_init)
  have a: "is_cdp_related ''Segment vs mParticle''"
    by code_simp
  have b: "is_comparison_question ''Segment vs mParticle''"
    by code_simp
  have c: "''Segment vs mParticle''
           = (if 500 < length ''Segment vs mParticle''
              then truncate_question ''Segment vs mParticle'' else ''Segment vs mParticle'')"
    by simp
  have a': "is_cdp_related ''How do I add a source in Segment?''"
    by code_simp
  have b': "\<not> is_comparison_question ''How do I add a source in Segment?''"
    by code_simp
  have c': "''How do I add a source in Segment?''
            = (if 500 < length ''How do I add a source in Segment?''
               then truncate_question ''How do I add a source in Segment?''
               else ''How do I add a source in Segment?'')"
    by simp
  from answer_question_search_error [OF s c a] answer_question_search_error [OF s' c a]
    answer_question_search_error [OF s c' a'] s s' a b a' b'
  show ?thesis
    by simp
qed

section \<open>The platforms of a comparison\<close>

text \<open>
  A pattern that matches somewhere in a text has each of its literals in the text. Each of
  the six patterns that look for a platform that is not named yet has the name of the
  platform in a literal, so they find no platform that the text does not name.
\<close>

lemma match_here_lit:
  "match_here p prev s = Some m \<Longrightarrow> Lit w \<in> set p \<Longrightarrow> sublist w s"
  "try_counts r capture prev s ns = Some m \<Longrightarrow> Lit w \<in> set r \<Longrightarrow> sublist w s"
proof (induction p prev s and r capture prev s ns arbitrary: m and m
    rule: match_here_try_counts.induct)
  case (1 prev s)
  then show ?case by simp
next
  case (2 w' r prev s)
  from "2.prems"(1) have p: "prefix w' s"
    and r: "match_here r (last_char prev w') (drop (length w') s) = Some m"
    by (auto split: if_splits)
  show ?case
  proof (cases "w = w'")
    case True
    with p show ?thesis
      by (simp add: prefix_imp_sublist)
  next
    case False
    with "2.prems"(2) have "Lit w \<in> set r"
      by simp
    with "2.IH" p r have "sublist w (drop (length w') s)"
      by blast
    then show ?thesis
      using sublist_drop sublist_order.order_trans by blast
  qed
next
  case (3 r prev s)
  then show ?case
    by (auto split: if_splits)
next
  case (4 cls m' greedy capture r prev s)
  then show ?case
    by auto
next
  case (5 r capture prev s)
  then show ?case by simp
next
  case (6 r capture prev s n ns)
  show ?case
  proof (cases "match_here r (last_char prev (take n s)) (drop n s)")
    case None
    with "6.prems" "6.IH"(2) show ?thesis
      by auto
  next
    case (Some a)
    with "6.IH"(1) "6.prems"(2) have "sublist w (drop n s)"
      by blast
    then show ?thesis
      using sublist_drop sublist_order.order_trans by blast
  qed
qed

lemma search_from_lit:
  "search_from p prev s = Some m \<Longrightarrow> Lit w \<in> set p \<Longrightarrow> sublist w s"
proof (induction s arbitrary: prev)
  case Nil
  then have "match_here p prev [] = Some m"
    by simp
  from this Nil.prems(2) show ?case
    by (rule match_here_lit(1))
next
  case (Cons c cs)
  show ?case
  proof (cases "match_here p prev (c # cs)")
    case None
    with Cons have "sublist w cs"
      by auto
    then show ?thesis
      by (simp add: sublist_Cons_right)
  next
    case (Some a)
    with Cons.prems(2) show ?thesis
      using match_here_lit(1) by blast
  qed
qed

lemma re_matches_lit: "re_matches p s \<Longrightarrow> Lit w \<in> set p \<Longrightarrow> sublist w s"
  unfolding re_matches_def re_search_def using search_from_lit by blast

lemma inference_pattern_lit:
  assumes "pattern \<in> set (inference_patterns cdp)"
  shows "\<exists>w. Lit w \<in> set pattern \<and> sublist cdp w"
proof -
  have 1: "sublist cdp (''difference between '' @ cdp @ '' and'')"
    and 2: "sublist cdp ('' and '' @ cdp)"
    and 3: "sublist cdp (cdp @ '' vs'')"
    and 4: "sublist cdp (''vs '' @ cdp)"
    and 5: "sublist cdp ('' to '' @ cdp)"
    and 6: "sublist cdp (''compare '' @ cdp @ '' to'')"
    by (rule sublist_appendI sublist_append_leftI sublist_append_rightI)+
  from assms consider "pattern = [Lit (''difference between '' @ cdp @ '' and'')]"
    | "pattern = [Lit ''difference between '', Rep Any_char 1 True False, Lit ('' and '' @ cdp)]"
    | "pattern = [Lit (cdp @ '' vs'')]"
    | "pattern = [Lit (''vs '' @ cdp)]"
    | "pattern = [Lit ''compare '', Rep Any_char 1 True False, Lit ('' to '' @ cdp)]"
    | "pattern = [Lit (''compare '' @ cdp @ '' to'')]"
    unfolding inference_patterns_def by auto
  then show ?thesis
  proof cases
    case 1
    with \<open>sublist cdp (''difference between '' @ cdp @ '' and'')\<close> show ?thesis
      by (intro exI [of _ "''difference between '' @ cdp @ '' and''"]) simp
  next
    case 2
    with \<open>sublist cdp ('' and '' @ cdp)\<close> show ?thesis
      by (intro exI [of _ "'' and '' @ cdp"]) simp
  next
    case 3
    with \<open>sublist cdp (cdp @ '' vs'')\<close> show ?thesis
      by (intro exI [of _ "cdp @ '' vs''"]) simp
  next
    case 4
    with \<open>sublist cdp (''vs '' @ cdp)\<close> show ?thesis
      by (intro exI [of _ "''vs '' @ cdp"]) simp
  next
    case 5
    with \<open>sublist cdp ('' to '' @ cdp)\<close> show ?thesis
      by (intro exI [of _ "'' to '' @ cdp"]) simp
  next
    case 6
    with \<open>sublist cdp (''compare '' @ cdp @ '' to'')\<close> show ?thesis
      by (intro exI [of _ "''compare '' @ cdp @ '' to''"]) simp
  qed
qed

lemma inference_pattern_names_cdp:
  assumes "pattern \<in> set (inference_patterns cdp)" and "re_matches pattern s"
  shows "contains cdp s"
proof -
  from assms(1) obtain w where w: "Lit w \<in> set pattern" and c: "sublist cdp w"
    using inference_pattern_lit by blast
  from assms(2) w have "sublist w s"
    by (rule re_matches_lit)
  with c show ?thesis
    unfolding contains_sublist by (rule sublist_order.order_trans)
qed

lemma infer_cdps_adds_nothing:
  "\<forall>cdp\<in>set cdps. contains cdp s \<longrightarrow> cdp \<in> set m \<Longrightarrow> infer_cdps cdps s m = m"
proof (induction cdps arbitrary: m)
  case Nil
  then show ?case by simp
next
  case (Cons cdp cdps)
  have "\<not> (cdp \<notin> set m \<and> list_ex (\<lambda>pattern. re_matches pattern s) (inference_patterns cdp))"
    using Cons.prems inference_pattern_names_cdp by (auto simp: list_ex_iff)
  with Cons show ?case
    by simp
qed

lemma infer_cdps_named:
  "infer_cdps supported_cdps s (filter (\<lambda>cdp. contains cdp s) supported_cdps)
     = filter (\<lambda>cdp. contains cdp s) supported_cdps"
  by (rule infer_cdps_adds_nothing) simp

lemma search_three_docs_returns:
  "\<exists>results. search lib_ties_asc three_docs query 3 = Inr results"
  by (simp add: search_def three_docs_def lib_ties_asc_def top_indices_def stable_argsort_def
      py_slice_from_def)

text \<open>
  C8. When the question names exactly one supported platform \<open>c\<close>, the six patterns add
  no platform, and the handler compares exactly two platforms: \<open>c\<close> and \<open>d\<close>, the first
  of the supported platforms in their order that is not \<open>c\<close>. Choosing them raises
  nothing, and when every search returns the handler returns an answer after one search
  for each of the two platforms, first \<open>c\<close> and then \<open>d\<close>.
\<close>

theorem comparison_pads_to_two_cdps:
  assumes "filter (\<lambda>cdp. contains cdp (lower q)) supported_cdps = [c]"
  shows "infer_cdps supported_cdps (lower q) [c] = [c]
         \<and> (\<exists>d. d = hd (filter (\<lambda>cdp. cdp \<noteq> c) supported_cdps) \<and> d \<noteq> c
                \<and> d \<in> set supported_cdps \<and> compared_cdps q = [c, d]
                \<and> ((\<forall>query. \<exists>results. search L ix query 3 = Inr results) \<longrightarrow>
                     (\<exists>answer. handle_comparison_question C L ix q
                        = (Inr answer, [extract_comparison_features q @ '' in '' @ c,
                                        extract_comparison_features q @ '' in '' @ d]))))"
proof -
  define d where "d = hd (filter (\<lambda>cdp. cdp \<noteq> c) supported_cdps)"
  have i: "infer_cdps supported_cdps (lower q) [c] = [c]"
    using infer_cdps_named [of "lower q"] by (simp add: assms)
  have "c \<in> set (filter (\<lambda>cdp. contains cdp (lower q)) supported_cdps)"
    by (simp add: assms)
  then have "c \<in> set supported_cdps"
    by simp
  then have r: "take (Suc 0) (filter (\<lambda>cdp. cdp \<noteq> c) supported_cdps) = [d]
                \<and> d \<noteq> c \<and> d \<in> set supported_cdps"
    unfolding d_def by (auto simp: supported_cdps_def)
  then have cd: "compared_cdps q = [c, d]"
    using assms i by (simp add: compared_cdps_def Let_def)
  have "\<exists>answer. handle_comparison_question C L ix q
          = (Inr answer, [extract_comparison_features q @ '' in '' @ c,
                          extract_comparison_features q @ '' in '' @ d])"
    if "\<forall>query. \<exists>results. search L ix query 3 = Inr results"
  proof -
    from search_each_succeeds [OF that, of "extract_comparison_features q" "[c, d]"]
    obtain all_results where "search_each L ix (extract_comparison_features q) [c, d]
        = (Inr all_results, [extract_comparison_features q @ '' in '' @ c,
                             extract_comparison_features q @ '' in '' @ d])"
      by auto
    then show ?thesis
      by (simp add: handle_comparison_question_def cd Let_def)
  qed
  with i r cd show ?thesis
    unfolding d_def by blast
qed

theorem comparison_pads_to_two_cdps_witness:
  "filter (\<lambda>cdp. contains cdp (lower ''Is Lytics better?'')) supported_cdps = [''lytics'']
   \<and> is_comparison_question ''Is Lytics better?''
   \<and> compared_cdps ''Is Lytics better?'' = [''lytics'', ''segment'']
   \<and> (\<exists>answer. handle_comparison_question plain_composer lib_ties_asc three_docs
                  ''Is Lytics better?''
                = (Inr answer, [''features and capabilities in lytics'',
                                ''features and capabilities in segment'']))"
proof -
  have a: "filter (\<lambda>cdp. contains cdp (lower ''Is Lytics better?'')) supported_cdps
           = [''lytics'']"
    by code_simp
  have b: "is_comparison_question ''Is Lytics better?''"
    by code_simp
  have f: "extract_comparison_features ''Is Lytics better?'' = ''features and capabilities''"
    by code_simp
  have h: "hd (filter (\<lambda>cdp. cdp \<noteq> ''lytics'') supported_cdps) = ''segment''"
    by (simp add: supported_cdps_def)
  have s: "\<forall>query. \<exists>results. search lib_ties_asc three_docs query 3 = Inr results"
    by (simp add: search_three_docs_returns)
  from comparison_pads_to_two_cdps [OF a, of lib_ties_asc three_docs plain_composer] s a b
  show ?thesis
    unfolding h f by simp
qed

section \<open>Questions of more than 500 characters\<close>
























end
